theory Spec2Isabelle
  imports Main "HOL-Library.AList"
begin

section \<open>Strings and integers as Python renders them\<close>

text \<open>
  The counter of both uniqueness loops is interpolated into an f-string, which renders a
  non-negative integer in decimal without leading zeros.
\<close>

definition digit_char :: "nat \<Rightarrow> char" where
  "digit_char d = char_of (48 + d)"

fun str_nat :: "nat \<Rightarrow> string" where
  "str_nat n = (if n < 10 then [digit_char n] else str_nat (n div 10) @ [digit_char (n mod 10)])"

declare str_nat.simps [simp del]

lemma digit_char_inj: "a < 10 \<Longrightarrow> b < 10 \<Longrightarrow> digit_char a = digit_char b \<Longrightarrow> a = b"
proof -
  assume a: "a < 10" and b: "b < 10" and e: "digit_char a = digit_char b"
  from e have "(of_char (digit_char a) :: nat) = of_char (digit_char b)" by simp
  then have "(48 + a) mod 256 = (48 + b) mod 256" by (simp add: digit_char_def)
  with a b show "a = b" by simp
qed

lemma str_nat_nonempty: "str_nat n \<noteq> []"
  by (subst str_nat.simps) simp

lemma str_nat_inj: "str_nat a = str_nat b \<Longrightarrow> a = b"
proof (induction a arbitrary: b rule: str_nat.induct)
  case (1 n)
  show ?case
  proof (cases "n < 10")
    case True
    note nsmall = this
    show ?thesis
    proof (cases "b < 10")
      case True
      with nsmall "1.prems" show ?thesis
        by (simp add: str_nat.simps[of n] str_nat.simps[of b] digit_char_inj)
    next
      case False
      with nsmall "1.prems" show ?thesis
        using str_nat_nonempty[of "b div 10"]
        by (simp add: str_nat.simps[of n] str_nat.simps[of b])
    qed
  next
    case False
    note nbig = this
    show ?thesis
    proof (cases "b < 10")
      case True
      with nbig "1.prems" show ?thesis
        using str_nat_nonempty[of "n div 10"]
        by (simp add: str_nat.simps[of n] str_nat.simps[of b])
    next
      case False
      with nbig "1.prems" have e1: "str_nat (n div 10) = str_nat (b div 10)"
        and e2: "digit_char (n mod 10) = digit_char (b mod 10)"
        by (simp_all add: str_nat.simps[of n] str_nat.simps[of b])
      from "1.IH"[OF nbig e1] have "n div 10 = b div 10" .
      moreover from e2 have "n mod 10 = b mod 10" by (intro digit_char_inj) simp_all
      ultimately show ?thesis by (metis div_mult_mod_eq)
    qed
  qed
qed

section \<open>The data model\<close>

text \<open>
  A model instance of a class that uses \<open>SageSlugSwapMixin\<close>: the primary key (\<open>None\<close>
  before the first insert), the two fields the mixin declares, and the other fields of the
  concrete model by name and value. The rows of the model's table are instances whose key is set.
\<close>

record entity =
  pk :: "nat option"
  title :: string
  slug :: string
  attrs :: "(string \<times> string) list"

text \<open>
  \<open>getattr(instance, f)\<close> for a field \<open>f\<close> of the model. The names a field configuration
  uses are fields of its model (the framework rejects a query on any other name), so a
  name outside the instance has no meaning here and reads as the empty string.
\<close>

definition getattr :: "entity \<Rightarrow> string \<Rightarrow> string" where
  "getattr e f =
     (if f = ''title'' then title e
      else if f = ''slug'' then slug e
      else (case map_of (attrs e) f of Some v \<Rightarrow> v | None \<Rightarrow> []))"

text \<open>Python's truth value of a primary key: \<open>None\<close> and \<open>0\<close> are false.\<close>

definition pk_truthy :: "nat option \<Rightarrow> bool" where
  "pk_truthy p = (case p of None \<Rightarrow> False | Some i \<Rightarrow> i \<noteq> 0)"

text \<open>
  \<open>queryset.exclude(pk=p)\<close>: every stored row has a key, so excluding the key
  \<open>None\<close> removes nothing.
\<close>

definition exclude_pk :: "nat option \<Rightarrow> entity list \<Rightarrow> entity list" where
  "exclude_pk p rows = (case p of None \<Rightarrow> rows | Some i \<Rightarrow> filter (\<lambda>r. pk r \<noteq> Some i) rows)"

text \<open>
  Modelled from the spec: \<open>sage_slug/helpers/enums.py\<close> (the enumeration \<open>RedirectType\<close>)
  is not among the sources. The spec gives the redirect class as Permanent or Temporary with
  Permanent the default; the sources name the default member \<open>RedirectType.Primary\<close> and
  answer it with a permanent redirect.
\<close>

datatype redirect_type = Primary | Temporary

text \<open>A row of \<open>SlugSwap\<close>; \<open>content_type\<close> is the model name of the referenced content type.\<close>

record slug_swap =
  old_slug :: string
  new_slug :: string
  content_type :: string
  object_id :: nat
  redirect_type :: redirect_type

record store =
  entities :: "entity list"
  slug_swaps :: "slug_swap list"

datatype error = IntegrityError string | MultipleObjectsReturned

section \<open>SAGESlugField (fields.py)\<close>

datatype populate = FromAttr string | FromCallable "entity \<Rightarrow> string"

text \<open>
  The configuration a field holds after \<open>__init__\<close>: \<open>unique_with\<close> is already the
  normalised tuple, \<open>unique\<close> is the option of the underlying \<open>SlugField\<close>.
\<close>

record sage_slug_field =
  populate_from :: "populate option"
  sep :: string
  slugify :: "string \<Rightarrow> string"
  unique :: bool
  unique_with :: "string list"
  always_update :: bool

definition populate_truthy :: "populate option \<Rightarrow> bool" where
  "populate_truthy p = (case p of None \<Rightarrow> False | Some (FromAttr a) \<Rightarrow> a \<noteq> [] | Some (FromCallable _) \<Rightarrow> True)"

definition get_prepopulated_value :: "sage_slug_field \<Rightarrow> entity \<Rightarrow> string" where
  "get_prepopulated_value fld instance =
     (case populate_from fld of
        Some (FromCallable f) \<Rightarrow> f instance
      | Some (FromAttr a) \<Rightarrow> getattr instance a
      | None \<Rightarrow> [])"

definition is_slug_exists :: "sage_slug_field \<Rightarrow> entity list \<Rightarrow> string \<Rightarrow> entity \<Rightarrow> bool" where
  "is_slug_exists fld rows s instance =
     (let queryset = (if pk_truthy (pk instance) then exclude_pk (pk instance) rows else rows)
      in if unique fld then list_ex (\<lambda>r. slug r = s) queryset
         else if unique_with fld \<noteq> [] then
           list_ex (\<lambda>r. list_all (\<lambda>f. getattr r f = getattr instance f) (unique_with fld) \<and> slug r = s)
             queryset
         else False)"

lemma set_exclude_pk_subset: "set (exclude_pk p rows) \<subseteq> set rows"
  by (auto simp: exclude_pk_def split: option.splits)

lemma is_slug_exists_slug: "is_slug_exists fld rows s instance \<Longrightarrow> s \<in> slug ` set rows"
  using set_exclude_pk_subset[of "pk instance" rows]
  by (auto simp: is_slug_exists_def Let_def list_ex_iff split: if_splits)

text \<open>
  Both uniqueness loops stop: the candidates \<open>base @ sep @ str k\<close> are pairwise different,
  the table is finite, so only finitely many candidates from the counter on are taken.
\<close>

lemma finite_cands: "finite {k. i \<le> k \<and> b @ sp @ str_nat k \<in> slug ` set (rows :: entity list)}"
proof -
  have "inj (\<lambda>k. b @ sp @ str_nat k)" by (auto simp: inj_def dest: str_nat_inj)
  then have "finite ((\<lambda>k. b @ sp @ str_nat k) -` (slug ` set rows))"
    by (intro finite_vimageI) simp_all
  then show ?thesis by (rule rev_finite_subset) auto
qed

definition pending :: "entity list \<Rightarrow> string \<Rightarrow> string \<Rightarrow> string \<Rightarrow> nat \<Rightarrow> nat" where
  "pending rows b sp s i =
     2 * card {k. i \<le> k \<and> b @ sp @ str_nat k \<in> slug ` set rows} + (if s \<in> slug ` set rows then 1 else 0)"

lemma pending_decreases:
  assumes "s \<in> slug ` set rows"
  shows "pending rows b sp (b @ sp @ str_nat i) (Suc i) < pending rows b sp s i"
proof (cases "b @ sp @ str_nat i \<in> slug ` set rows")
  case True
  have "i \<in> {k. i \<le> k \<and> b @ sp @ str_nat k \<in> slug ` set rows}"
    using True by simp
  moreover have "i \<notin> {k. Suc i \<le> k \<and> b @ sp @ str_nat k \<in> slug ` set rows}"
    by simp
  moreover have "{k. Suc i \<le> k \<and> b @ sp @ str_nat k \<in> slug ` set rows}
      \<subseteq> {k. i \<le> k \<and> b @ sp @ str_nat k \<in> slug ` set rows}"
    by auto
  ultimately have "{k. Suc i \<le> k \<and> b @ sp @ str_nat k \<in> slug ` set rows}
      \<subset> {k. i \<le> k \<and> b @ sp @ str_nat k \<in> slug ` set rows}"
    by blast
  then have "card {k. Suc i \<le> k \<and> b @ sp @ str_nat k \<in> slug ` set rows}
      < card {k. i \<le> k \<and> b @ sp @ str_nat k \<in> slug ` set rows}"
    by (intro psubset_card_mono finite_cands)
  with assms True show ?thesis by (simp add: pending_def)
next
  case False
  have "{k. Suc i \<le> k \<and> b @ sp @ str_nat k \<in> slug ` set rows}
      \<subseteq> {k. i \<le> k \<and> b @ sp @ str_nat k \<in> slug ` set rows}"
    by auto
  then have "card {k. Suc i \<le> k \<and> b @ sp @ str_nat k \<in> slug ` set rows}
      \<le> card {k. i \<le> k \<and> b @ sp @ str_nat k \<in> slug ` set rows}"
    by (intro card_mono finite_cands)
  with assms False show ?thesis by (simp add: pending_def)
qed

text \<open>
  The \<open>while\<close> loop of \<open>generate_unique_slug\<close>, entered with \<open>slug\<close> and \<open>index\<close>.
\<close>

function generate_unique_slug_loop ::
  "sage_slug_field \<Rightarrow> entity list \<Rightarrow> entity \<Rightarrow> string \<Rightarrow> string \<Rightarrow> nat \<Rightarrow> string" where
  "generate_unique_slug_loop fld rows instance original_slug s index =
     (if is_slug_exists fld rows s instance
      then generate_unique_slug_loop fld rows instance original_slug
             (original_slug @ sep fld @ str_nat index) (index + 1)
      else s)"
  by pat_completeness auto
termination
  by (relation "measure (\<lambda>(fld, rows, instance, original_slug, s, index).
                  pending rows original_slug (sep fld) s index)")
     (auto dest!: is_slug_exists_slug intro: pending_decreases simp del: image_iff)

declare generate_unique_slug_loop.simps [simp del]

definition generate_unique_slug :: "sage_slug_field \<Rightarrow> entity list \<Rightarrow> entity \<Rightarrow> string \<Rightarrow> string" where
  "generate_unique_slug fld rows instance s = generate_unique_slug_loop fld rows instance s s 1"

text \<open>
  The body of the \<open>pre_save\<close> receiver that \<open>contribute_to_class\<close> defines: it returns
  the instance with the field's attribute set. The receiver is a function local to
  \<open>contribute_to_class\<close>, connected with the signal's default weak reference; nothing
  holds it once that method has returned, so the signal has no live receiver and a save
  does not run it.
\<close>

definition generate_slug :: "sage_slug_field \<Rightarrow> entity list \<Rightarrow> entity \<Rightarrow> entity" where
  "generate_slug fld rows instance =
     (let value0 = slug instance;
          value1 = (if always_update fld \<or> (populate_truthy (populate_from fld) \<and> value0 = [])
                    then (let v = get_prepopulated_value fld instance
                          in if v \<noteq> [] then slugify fld v else v)
                    else value0);
          value2 = (if value1 \<noteq> [] \<and> (unique fld \<or> unique_with fld \<noteq> [])
                    then generate_unique_slug fld rows instance value1
                    else value1)
      in instance\<lparr>slug := value2\<rparr>)"

section \<open>The slugifier\<close>

text \<open>
  \<open>django.utils.text.slugify\<close> is a library function; the mixin and the field take it as
  a parameter here, and the general theorems hold for every function in its place. For
  runs on concrete ASCII titles this is what the library computes: lower-case the text,
  drop every character that is not a word character, white space or a hyphen, replace each
  run of hyphens and white space by one hyphen, strip hyphens and underscores at both ends.
  It is the library's function on ASCII text only: a byte outside ASCII is dropped here,
  where the library with \<open>allow_unicode=True\<close> keeps the letters and digits of other
  scripts. It is applied to ASCII titles only.
\<close>

definition lower_char :: "char \<Rightarrow> char" where
  "lower_char c = (let n = (of_char c :: nat) in if 65 \<le> n \<and> n \<le> 90 then char_of (n + 32) else c)"

definition is_word_char :: "char \<Rightarrow> bool" where
  "is_word_char c =
     (let n = (of_char c :: nat)
      in (97 \<le> n \<and> n \<le> 122) \<or> (65 \<le> n \<and> n \<le> 90) \<or> (48 \<le> n \<and> n \<le> 57) \<or> n = 95)"

definition is_space_char :: "char \<Rightarrow> bool" where
  "is_space_char c =
     (let n = (of_char c :: nat) in (9 \<le> n \<and> n \<le> 13) \<or> (28 \<le> n \<and> n \<le> 32))"

definition is_hyphen_or_space :: "char \<Rightarrow> bool" where
  "is_hyphen_or_space c = (c = CHR ''-'' \<or> is_space_char c)"

fun collapse_runs :: "bool \<Rightarrow> string \<Rightarrow> string" where
  "collapse_runs in_run [] = []"
| "collapse_runs in_run (c # cs) =
     (if is_hyphen_or_space c
      then (if in_run then collapse_runs True cs else CHR ''-'' # collapse_runs True cs)
      else c # collapse_runs False cs)"

definition strip_chars :: "(char \<Rightarrow> bool) \<Rightarrow> string \<Rightarrow> string" where
  "strip_chars P s = rev (dropWhile P (rev (dropWhile P s)))"

definition django_slugify :: "string \<Rightarrow> string" where
  "django_slugify v =
     strip_chars (\<lambda>c. c = CHR ''-'' \<or> c = CHR ''_'')
       (collapse_runs False
          (filter (\<lambda>c. is_word_char c \<or> is_hyphen_or_space c) (map lower_char v)))"

section \<open>The persistence write under the mixin's save\<close>

text \<open>
  \<open>super().save()\<close> is the framework's \<open>Model.save\<close>. What the declarations of this
  repository make of it: the columns \<open>title\<close> and \<open>slug\<close> are declared unique, so a row
  of another key with the same value makes the write raise; an instance whose key has a row
  updates it, any other instance is inserted, under a new key when it has none. The
  \<open>pre_save\<close> signal it sends reaches no receiver of this repository (see
  \<open>generate_slug\<close>).
\<close>

definition next_id :: "entity list \<Rightarrow> nat" where
  "next_id rows = Suc (fold max (map (\<lambda>r. case pk r of None \<Rightarrow> 0 | Some i \<Rightarrow> i) rows) 0)"

definition save_base :: "entity list \<Rightarrow> entity \<Rightarrow> error + entity list \<times> entity" where
  "save_base rows instance0 =
     (let instance = (case pk instance0 of
                        None \<Rightarrow> instance0\<lparr>pk := Some (next_id rows)\<rparr>
                      | Some _ \<Rightarrow> instance0)
      in if list_ex (\<lambda>r. pk r \<noteq> pk instance \<and> title r = title instance) rows
         then Inl (IntegrityError ''title'')
         else if list_ex (\<lambda>r. pk r \<noteq> pk instance \<and> slug r = slug instance) rows
         then Inl (IntegrityError ''slug'')
         else if list_ex (\<lambda>r. pk r = pk instance) rows
         then Inr (map (\<lambda>r. if pk r = pk instance then instance else r) rows, instance)
         else Inr (rows @ [instance], instance))"

section \<open>SageSlugSwapMixin (mixins.py)\<close>


definition get_slug_source_field :: "entity \<Rightarrow> string" where
  "get_slug_source_field self = title self"

definition generate_new_slug_base :: "(string \<Rightarrow> string) \<Rightarrow> entity \<Rightarrow> string" where
  "generate_new_slug_base sl self = sl (get_slug_source_field self)"

definition check_slug_changed :: "entity list \<Rightarrow> entity \<Rightarrow> string \<Rightarrow> bool" where
  "check_slug_changed rows self new_slug' =
     (if \<not> pk_truthy (pk self) then False
      else (case find (\<lambda>r. pk r = pk self) rows of
              Some old_instance \<Rightarrow> slug old_instance \<noteq> new_slug'
            | None \<Rightarrow> False))"

text \<open>
  The probe \<open>type(self).objects.filter(slug=s).exclude(pk=self.pk).exists()\<close>, and the
  \<open>while not unique\<close> loop of the mixin's \<open>__generate_unique_slug\<close>, entered with
  \<open>new_slug\<close> and \<open>counter\<close>; setting the flag ends it.
\<close>

definition slug_taken :: "entity list \<Rightarrow> entity \<Rightarrow> string \<Rightarrow> bool" where
  "slug_taken rows self s = list_ex (\<lambda>r. slug r = s) (exclude_pk (pk self) rows)"

function mixin_unique_loop :: "entity list \<Rightarrow> entity \<Rightarrow> string \<Rightarrow> string \<Rightarrow> nat \<Rightarrow> string" where
  "mixin_unique_loop rows self new_slug_base new_slug' counter =
     (if slug_taken rows self new_slug'
      then mixin_unique_loop rows self new_slug_base
             (new_slug_base @ ''-'' @ str_nat counter) (counter + 1)
      else new_slug')"
  by pat_completeness auto
termination
proof (relation "measure (\<lambda>(rows, self, new_slug_base, new_slug', counter).
                  pending rows new_slug_base ''-'' new_slug' counter)", goal_cases)
  case 1
  show ?case by simp
next
  case (2 rows self new_slug_base new_slug' counter)
  then have "new_slug' \<in> slug ` set rows"
    using set_exclude_pk_subset[of "pk self" rows] by (auto simp: slug_taken_def list_ex_iff)
  then show ?case
    using pending_decreases[of new_slug' rows new_slug_base "''-''" counter] by simp
qed

declare mixin_unique_loop.simps [simp del]

definition mixin_generate_unique_slug :: "(string \<Rightarrow> string) \<Rightarrow> entity list \<Rightarrow> entity \<Rightarrow> string" where
  "mixin_generate_unique_slug sl rows self =
     (let new_slug_base = generate_new_slug_base sl self
      in mixin_unique_loop rows self new_slug_base new_slug_base 1)"

text \<open>
  \<open>SlugSwap.objects.update_or_create(old_slug=k, defaults=...)\<close>: one matching row is
  updated in the fields of \<open>defaults\<close>, no matching row creates one (with the default
  redirect type), several make the manager raise.
\<close>

definition update_or_create ::
  "slug_swap list \<Rightarrow> string \<Rightarrow> string \<Rightarrow> string \<Rightarrow> nat \<Rightarrow> error + slug_swap list" where
  "update_or_create sw k ns ct oid =
     (case filter (\<lambda>r. old_slug r = k) sw of
        [] \<Rightarrow> Inr (sw @ [\<lparr>old_slug = k, new_slug = ns, content_type = ct, object_id = oid,
                          redirect_type = Primary\<rparr>])
      | [_] \<Rightarrow> Inr (map (\<lambda>r. if old_slug r = k
                               then r\<lparr>new_slug := ns, content_type := ct, object_id := oid\<rparr>
                               else r) sw)
      | _ # _ # _ \<Rightarrow> Inl MultipleObjectsReturned)"

definition handle_slug_swap_logic ::
  "string \<Rightarrow> slug_swap list \<Rightarrow> entity \<Rightarrow> string \<Rightarrow> string \<Rightarrow> error + slug_swap list" where
  "handle_slug_swap_logic ct sw self old new =
     (case pk self of
        None \<Rightarrow> Inr sw
      | Some i \<Rightarrow> if i \<noteq> 0 then update_or_create sw old new ct i else Inr sw)"

text \<open>
  \<open>save\<close>, over any persistence write \<open>w\<close> in the place of \<open>super().save()\<close>, for a
  model whose content type is \<open>ct\<close>. The result is what the call returns or raises,
  together with the store it leaves.
\<close>

definition save_with ::
  "(entity list \<Rightarrow> entity \<Rightarrow> error + entity list \<times> entity) \<Rightarrow> string \<Rightarrow> (string \<Rightarrow> string)
     \<Rightarrow> store \<Rightarrow> entity \<Rightarrow> (error + entity) \<times> store" where
  "save_with w ct sl st self =
     (let new_slug' = mixin_generate_unique_slug sl (entities st) self;
          old = slug self;
          slug_changed = check_slug_changed (entities st) self new_slug'
      in case w (entities st) (self\<lparr>slug := new_slug'\<rparr>) of
           Inl err \<Rightarrow> (Inl err, st)
         | Inr (rows', self') \<Rightarrow>
             if slug_changed
             then (case handle_slug_swap_logic ct (slug_swaps st) self' old new_slug' of
                     Inl err \<Rightarrow> (Inl err, st\<lparr>entities := rows'\<rparr>)
                   | Inr sw' \<Rightarrow> (Inr self', \<lparr>entities = rows', slug_swaps = sw'\<rparr>))
             else (Inr self', st\<lparr>entities := rows'\<rparr>))"

definition save :: "string \<Rightarrow> (string \<Rightarrow> string) \<Rightarrow> store \<Rightarrow> entity \<Rightarrow> (error + entity) \<times> store" where
  "save ct sl st self = save_with save_base ct sl st self"

text \<open>A sequence of saves, one after the other on the store the previous one left.\<close>

fun saves :: "string \<Rightarrow> (string \<Rightarrow> string) \<Rightarrow> store \<Rightarrow> entity list \<Rightarrow> store" where
  "saves ct sl st [] = st"
| "saves ct sl st (e # es) = saves ct sl (snd (save ct sl st e)) es"

section \<open>OldSlugRedirectMiddleware (middleware/slug_swap.py)\<close>

record resolver_match =
  view_name :: string
  kwargs :: "(string \<times> string) list"

record request =
  request_resolver_match :: "resolver_match option"

datatype response = HttpResponse nat | PermanentRedirect string | TemporaryRedirect string

fun status_code :: "response \<Rightarrow> nat" where
  "status_code (HttpResponse n) = n"
| "status_code (PermanentRedirect _) = 301"
| "status_code (TemporaryRedirect _) = 302"

text \<open>The default of \<open>SAGESLUG_TYPE_MAPPING\<close> (settings/conf.py), in the dictionary's order.\<close>

definition default_slug_type_mapping :: "(string \<times> string) list" where
  "default_slug_type_mapping =
     [(''product_slug'', ''product''), (''category_slug'', ''category''), (''post_slug'', ''post'')]"

definition get_new_slug :: "slug_swap list \<Rightarrow> string \<Rightarrow> string \<Rightarrow> string" where
  "get_new_slug sw old slug_type =
     (case find (\<lambda>r. old_slug r = old \<and> content_type r = slug_type) sw of
        Some slug_swap \<Rightarrow> new_slug slug_swap
      | None \<Rightarrow> old)"

text \<open>The \<open>for\<close> loop of \<open>process_response\<close> that fills \<open>updated_kwargs\<close>.\<close>

fun update_kwargs ::
  "slug_swap list \<Rightarrow> (string \<times> string) list \<Rightarrow> (string \<times> string) list \<Rightarrow> (string \<times> string) list
     \<Rightarrow> (string \<times> string) list" where
  "update_kwargs sw kw [] updated = updated"
| "update_kwargs sw kw ((slug_name, slug_type) # rest) updated =
     (case map_of kw slug_name of
        None \<Rightarrow> update_kwargs sw kw rest updated
      | Some old \<Rightarrow>
          if old \<noteq> []
          then update_kwargs sw kw rest (AList.update slug_name (get_new_slug sw old slug_type) updated)
          else update_kwargs sw kw rest updated)"

definition redirect ::
  "(string \<times> string) list \<Rightarrow> slug_swap list \<Rightarrow> string \<Rightarrow> (string \<times> string) list \<Rightarrow> response" where
  "redirect slug_type_mapping sw url updated_kwargs =
     (let old = (case find (\<lambda>slug_name. map_of updated_kwargs slug_name \<noteq> None)
                        (map fst slug_type_mapping) of
                   None \<Rightarrow> None
                 | Some slug_name \<Rightarrow> map_of updated_kwargs slug_name)
      in case old of
           None \<Rightarrow> TemporaryRedirect url
         | Some s \<Rightarrow>
             if s \<noteq> []
             then (case find (\<lambda>r. old_slug r = s) sw of
                     Some slug_swap \<Rightarrow>
                       if redirect_type slug_swap = Primary then PermanentRedirect url
                       else TemporaryRedirect url
                   | None \<Rightarrow> TemporaryRedirect url)
             else TemporaryRedirect url)"

text \<open>
  \<open>process_response\<close>, over the framework's \<open>reverse\<close> (\<open>None\<close> is \<open>NoReverseMatch\<close>).
  A request without a resolver match raises \<open>AttributeError\<close> inside the \<open>try\<close>, and the
  \<open>Http404\<close> raised after \<open>NoReverseMatch\<close> is caught by \<open>except Exception\<close>: both fall
  through to \<open>return response\<close>.
\<close>

definition process_response ::
  "(string \<times> string) list \<Rightarrow> (string \<Rightarrow> (string \<times> string) list \<Rightarrow> string option) \<Rightarrow> slug_swap list
     \<Rightarrow> request \<Rightarrow> response \<Rightarrow> response" where
  "process_response slug_type_mapping reverse sw req resp =
     (if status_code resp = 404
      then (case request_resolver_match req of
              None \<Rightarrow> resp
            | Some rm \<Rightarrow>
                (let updated_kwargs = update_kwargs sw (kwargs rm) slug_type_mapping []
                 in if updated_kwargs \<noteq> []
                    then (case reverse (view_name rm) updated_kwargs of
                            Some new_url \<Rightarrow> redirect slug_type_mapping sw new_url updated_kwargs
                          | None \<Rightarrow> resp)
                    else resp))
      else resp)"

section \<open>The scope of a uniqueness probe, as the specification words it\<close>




section \<open>Data of the concrete runs\<close>

definition mk_entity :: "nat option \<Rightarrow> string \<Rightarrow> string \<Rightarrow> entity" where
  "mk_entity p t s = \<lparr>pk = p, title = t, slug = s, attrs = []\<rparr>"



definition dated_field :: sage_slug_field where
  "dated_field = \<lparr>populate_from = Some (FromAttr ''title''), sep = ''-'', slugify = django_slugify,
     unique = True, unique_with = [''pub_date''], always_update = False\<rparr>"

definition dated_entity :: "nat option \<Rightarrow> string \<Rightarrow> string \<Rightarrow> string \<Rightarrow> entity" where
  "dated_entity p t s d =
     \<lparr>pk = p, title = t, slug = s, attrs = [(''pub_date'', d)]\<rparr>"

definition example_reverse :: "string \<Rightarrow> (string \<times> string) list \<Rightarrow> string option" where
  "example_reverse name kw =
     (if name = ''post-detail''
      then (case map_of kw ''post_slug'' of
              Some s \<Rightarrow> Some (''/posts/'' @ s @ ''/'')
            | None \<Rightarrow> None)
      else None)"

definition post_request :: "string \<Rightarrow> request" where
  "post_request s =
     \<lparr>request_resolver_match = Some \<lparr>view_name = ''post-detail'', kwargs = [(''post_slug'', s)]\<rparr>\<rparr>"

definition post_swap :: "string \<Rightarrow> string \<Rightarrow> redirect_type \<Rightarrow> slug_swap" where
  "post_swap a b t =
     \<lparr>old_slug = a, new_slug = b, content_type = ''post'', object_id = 1, redirect_type = t\<rparr>"

definition two_posts :: store where
  "two_posts =
     \<lparr>entities = [mk_entity (Some 1) ''Hello World'' ''hello-world'',
                  mk_entity (Some 2) ''Other'' ''other''],
      slug_swaps = [post_swap ''older'' ''other'' Primary]\<rparr>"

definition hello_store :: store where
  "hello_store =
     \<lparr>entities = [mk_entity (Some 1) ''Hello World'' ''hello-world''],
      slug_swaps = [post_swap ''hi-world'' ''hello-world'' Primary]\<rparr>"

definition empty_store :: store where
  "empty_store = \<lparr>entities = [], slug_swaps = []\<rparr>"

definition retitled_store :: store where
  "retitled_store =
     \<lparr>entities = [mk_entity (Some 1) ''Second Title'' ''second-title''],
      slug_swaps = [post_swap ''first-title'' ''second-title'' Primary]\<rparr>"

definition cycle_saves :: "entity list" where
  "cycle_saves =
     [mk_entity None ''A'' [], mk_entity (Some 1) ''B'' ''a'', mk_entity (Some 1) ''A'' ''b'']"

definition cycled_store :: store where
  "cycled_store =
     \<lparr>entities = [mk_entity (Some 1) ''A'' ''a''],
      slug_swaps = [post_swap ''a'' ''b'' Primary, post_swap ''b'' ''a'' Primary]\<rparr>"



definition zero_store :: store where
  "zero_store = \<lparr>entities = [mk_entity (Some 0) ''Zero'' ''zero''], slug_swaps = []\<rparr>"

section \<open>The uniqueness resolver\<close>

lemma loop_free: "\<not> is_slug_exists fld rows s inst \<Longrightarrow> generate_unique_slug_loop fld rows inst b s i = s"
  by (subst generate_unique_slug_loop.simps) simp

lemma loop_first_free:
  "is_slug_exists fld rows s inst \<Longrightarrow>
   \<exists>k\<ge>i. generate_unique_slug_loop fld rows inst b s i = b @ sep fld @ str_nat k
        \<and> \<not> is_slug_exists fld rows (b @ sep fld @ str_nat k) inst
        \<and> (\<forall>j. i \<le> j \<and> j < k \<longrightarrow> is_slug_exists fld rows (b @ sep fld @ str_nat j) inst)"
proof (induction fld rows inst b s i rule: generate_unique_slug_loop.induct)
  case (1 fld rows inst b s i)
  have step: "generate_unique_slug_loop fld rows inst b s i
      = generate_unique_slug_loop fld rows inst b (b @ sep fld @ str_nat i) (i + 1)"
    using "1.prems" by (subst generate_unique_slug_loop.simps) simp
  show ?case
  proof (cases "is_slug_exists fld rows (b @ sep fld @ str_nat i) inst")
    case False
    then have "generate_unique_slug_loop fld rows inst b s i = b @ sep fld @ str_nat i"
      by (simp add: step loop_free)
    with False show ?thesis by (intro exI[of _ i]) auto
  next
    case True
    from "1.IH"[OF "1.prems" True] obtain k where k: "i + 1 \<le> k"
      "generate_unique_slug_loop fld rows inst b (b @ sep fld @ str_nat i) (i + 1) = b @ sep fld @ str_nat k"
      "\<not> is_slug_exists fld rows (b @ sep fld @ str_nat k) inst"
      "\<forall>j. i + 1 \<le> j \<and> j < k \<longrightarrow> is_slug_exists fld rows (b @ sep fld @ str_nat j) inst"
      by blast
    have "\<forall>j. i \<le> j \<and> j < k \<longrightarrow> is_slug_exists fld rows (b @ sep fld @ str_nat j) inst"
    proof (intro allI impI)
      fix j assume j: "i \<le> j \<and> j < k"
      show "is_slug_exists fld rows (b @ sep fld @ str_nat j) inst"
      proof (cases "j = i")
        case True with \<open>is_slug_exists fld rows (b @ sep fld @ str_nat i) inst\<close> show ?thesis by simp
      next
        case False with j k(4) show ?thesis by simp
      qed
    qed
    with k step show ?thesis by (intro exI[of _ k]) simp
  qed
qed

lemma mixin_loop_free: "\<not> slug_taken rows self s \<Longrightarrow> mixin_unique_loop rows self b s i = s"
  by (subst mixin_unique_loop.simps) simp

lemma mixin_loop_first_free:
  "slug_taken rows self s \<Longrightarrow>
   \<exists>k\<ge>i. mixin_unique_loop rows self b s i = b @ ''-'' @ str_nat k
        \<and> \<not> slug_taken rows self (b @ ''-'' @ str_nat k)
        \<and> (\<forall>j. i \<le> j \<and> j < k \<longrightarrow> slug_taken rows self (b @ ''-'' @ str_nat j))"
proof (induction rows self b s i rule: mixin_unique_loop.induct)
  case (1 rows self b s i)
  have step: "mixin_unique_loop rows self b s i
      = mixin_unique_loop rows self b (b @ ''-'' @ str_nat i) (i + 1)"
    using "1.prems" by (subst mixin_unique_loop.simps) simp
  show ?case
  proof (cases "slug_taken rows self (b @ ''-'' @ str_nat i)")
    case False
    then have "mixin_unique_loop rows self b s i = b @ ''-'' @ str_nat i"
      by (simp add: step mixin_loop_free)
    with False show ?thesis by (intro exI[of _ i]) auto
  next
    case True
    from "1.IH"[OF "1.prems" True] obtain k where k: "i + 1 \<le> k"
      "mixin_unique_loop rows self b (b @ ''-'' @ str_nat i) (i + 1) = b @ ''-'' @ str_nat k"
      "\<not> slug_taken rows self (b @ ''-'' @ str_nat k)"
      "\<forall>j. i + 1 \<le> j \<and> j < k \<longrightarrow> slug_taken rows self (b @ ''-'' @ str_nat j)"
      by blast
    have "\<forall>j. i \<le> j \<and> j < k \<longrightarrow> slug_taken rows self (b @ ''-'' @ str_nat j)"
    proof (intro allI impI)
      fix j assume j: "i \<le> j \<and> j < k"
      show "slug_taken rows self (b @ ''-'' @ str_nat j)"
      proof (cases "j = i")
        case True with \<open>slug_taken rows self (b @ ''-'' @ str_nat i)\<close> show ?thesis by simp
      next
        case False with j k(4) show ?thesis by simp
      qed
    qed
    with k step show ?thesis by (intro exI[of _ k]) simp
  qed
qed

lemma mixin_generate_unique_slug_loop:
  "mixin_generate_unique_slug sl rows self
     = mixin_unique_loop rows self (sl (title self)) (sl (title self)) 1"
  by (simp add: mixin_generate_unique_slug_def generate_new_slug_base_def
      get_slug_source_field_def Let_def)







text \<open>
  Claim C10. A field with \<open>unique=True\<close> and a non-empty \<open>unique_with\<close> probes on the slug
  alone: the probe is the existence of a row with that slug among the rows other than the
  instance's own, whatever \<open>unique_with\<close> names and whatever the instance holds in those
  columns. So a row of another key with the same slug and a different value in a column
  \<open>f\<close> still counts as a collision, and the resolver returns a suffixed slug.
\<close>

theorem unique_overrides_unique_with:
  assumes "unique fld" and "unique_with fld \<noteq> []"
  shows "is_slug_exists fld rows s inst
           = list_ex (\<lambda>r. slug r = s)
               (if pk_truthy (pk inst) then exclude_pk (pk inst) rows else rows)
         \<and> (r \<in> set rows \<and> pk r \<noteq> pk inst \<and> slug r = s
              \<and> f \<in> set (unique_with fld) \<and> getattr r f \<noteq> getattr inst f
              \<longrightarrow> is_slug_exists fld rows s inst \<and> generate_unique_slug fld rows inst s \<noteq> s)"
proof (intro conjI impI)
  show e: "is_slug_exists fld rows s inst
           = list_ex (\<lambda>r. slug r = s)
               (if pk_truthy (pk inst) then exclude_pk (pk inst) rows else rows)"
    using assms(1) by (simp add: is_slug_exists_def Let_def)
  assume a: "r \<in> set rows \<and> pk r \<noteq> pk inst \<and> slug r = s
              \<and> f \<in> set (unique_with fld) \<and> getattr r f \<noteq> getattr inst f"
  then have "r \<in> set (if pk_truthy (pk inst) then exclude_pk (pk inst) rows else rows)"
    by (auto simp: exclude_pk_def split: option.splits)
  with a show ex: "is_slug_exists fld rows s inst"
    unfolding e list_ex_iff by blast
  from loop_first_free[OF ex, of 1 s]
  show "generate_unique_slug fld rows inst s \<noteq> s"
    by (auto simp: generate_unique_slug_def str_nat_nonempty)
qed

theorem unique_overrides_unique_with_witness:
  "unique dated_field \<and> unique_with dated_field \<noteq> []
   \<and> ''pub_date'' \<in> set (unique_with dated_field)
   \<and> getattr (dated_entity (Some 1) ''News'' ''news'' ''2024-01-01'') ''pub_date''
       \<noteq> getattr (dated_entity None ''News!'' ''news'' ''2024-02-02'') ''pub_date''
   \<and> is_slug_exists dated_field [dated_entity (Some 1) ''News'' ''news'' ''2024-01-01''] ''news''
        (dated_entity None ''News!'' ''news'' ''2024-02-02'')
   \<and> generate_unique_slug dated_field [dated_entity (Some 1) ''News'' ''news'' ''2024-01-01''] 
        (dated_entity None ''News!'' ''news'' ''2024-02-02'') ''news'' \<noteq> ''news''"
proof -
  have h1: "unique dated_field" and h2: "unique_with dated_field \<noteq> []"
    by (simp_all add: dated_field_def)
  have h3: "getattr (dated_entity (Some 1) ''News'' ''news'' ''2024-01-01'') ''pub_date''
       \<noteq> getattr (dated_entity None ''News!'' ''news'' ''2024-02-02'') ''pub_date''"
    by (simp add: getattr_def dated_entity_def)
  have h5: "''pub_date'' \<in> set (unique_with dated_field)"
    by (simp add: dated_field_def)
  have h4: "dated_entity (Some 1) ''News'' ''news'' ''2024-01-01''
       \<in> set [dated_entity (Some 1) ''News'' ''news'' ''2024-01-01'']
     \<and> pk (dated_entity (Some 1) ''News'' ''news'' ''2024-01-01'')
       \<noteq> pk (dated_entity None ''News!'' ''news'' ''2024-02-02'')
     \<and> slug (dated_entity (Some 1) ''News'' ''news'' ''2024-01-01'') = ''news''"
    by (simp add: dated_entity_def)
  from unique_overrides_unique_with[OF h1 h2,
      of "[dated_entity (Some 1) ''News'' ''news'' ''2024-01-01'']" "''news''"
         "dated_entity None ''News!'' ''news'' ''2024-02-02''"
         "dated_entity (Some 1) ''News'' ''news'' ''2024-01-01''" "''pub_date''"] h3 h4 h5
  have "is_slug_exists dated_field [dated_entity (Some 1) ''News'' ''news'' ''2024-01-01''] ''news''
        (dated_entity None ''News!'' ''news'' ''2024-02-02'')
   \<and> generate_unique_slug dated_field [dated_entity (Some 1) ''News'' ''news'' ''2024-01-01''] 
        (dated_entity None ''News!'' ''news'' ''2024-02-02'') ''news'' \<noteq> ''news''"
    by blast
  with h1 h2 h3 h5 show ?thesis by blast
qed


section \<open>The redirect resolver\<close>

text \<open>
  Claim C1. The claim: a request whose stale slug has a ledger row of class Permanent gets
  a permanent redirect (a temporary one for class Temporary, and a temporary one when no
  row is found when the class is determined). The code determines the class from
  \<open>updated_kwargs\<close>, which by then holds the new slug, and looks for a row whose
  \<open>old_slug\<close> is that new slug. With the single row \<open>old-name \<rightarrow> new-name\<close> of class
  Permanent and a request for \<open>old-name\<close>, no row has \<open>old_slug = new-name\<close>, and
  \<open>process_response\<close> answers with a temporary redirect to the new route. With the rows
  \<open>a \<rightarrow> b\<close> of class Temporary and \<open>b \<rightarrow> a\<close> of class Permanent, a request for \<open>a\<close>
  is answered from the row of \<open>b\<close>, with a permanent redirect.
\<close>

theorem stale_slug_of_permanent_row_redirects_temporarily:
  "get_new_slug [post_swap ''old-name'' ''new-name'' Primary] ''old-name'' ''post'' = ''new-name''
   \<and> process_response default_slug_type_mapping example_reverse
         [post_swap ''old-name'' ''new-name'' Primary] (post_request ''old-name'') (HttpResponse 404)
       = TemporaryRedirect ''/posts/new-name/''
   \<and> process_response default_slug_type_mapping example_reverse
         [post_swap ''a'' ''b'' Temporary, post_swap ''b'' ''a'' Primary] (post_request ''a'')
         (HttpResponse 404)
       = PermanentRedirect ''/posts/b/''"
  by code_simp

text \<open>
  Claim C2. The claim: when no parameter is substituted by a ledger row, the original
  not-found response is returned and no redirect is attempted. The code stores in
  \<open>updated_kwargs\<close> every configured parameter that is present, substituted or not
  (\<open>_get_new_slug\<close> returns the old slug when no row matches), so \<open>updated_kwargs\<close> is
  non-empty: with an empty ledger and a request for the unknown slug \<open>missing\<close>,
  \<open>process_response\<close> reverses the same route and answers with a temporary redirect to it.
\<close>

theorem unknown_slug_is_redirected_to_itself:
  "get_new_slug [] ''missing'' ''post'' = ''missing''
   \<and> update_kwargs [] [(''post_slug'', ''missing'')] default_slug_type_mapping []
       = [(''post_slug'', ''missing'')]
   \<and> process_response default_slug_type_mapping example_reverse [] (post_request ''missing'')
       (HttpResponse 404)
     = TemporaryRedirect ''/posts/missing/''"
  by code_simp

section \<open>The save of the mixin\<close>

text \<open>
  Claim C8. When the underlying persistence write raises, \<open>save\<close> raises the same error
  before \<open>__handle_slug_swap_logic\<close> is reached: the store it leaves is the store it
  found, so the ledger after the failed save is the ledger before it. This holds for every
  write in the place of \<open>super().save()\<close> and whether or not the slug had changed.
\<close>

theorem failed_write_leaves_ledger:
  assumes "w (entities st) (self\<lparr>slug := mixin_generate_unique_slug sl (entities st) self\<rparr>) = Inl err"
  shows "save_with w ct sl st self = (Inl err, st)
         \<and> slug_swaps (snd (save_with w ct sl st self)) = slug_swaps st"
  using assms by (simp add: save_with_def Let_def)

theorem failed_write_leaves_ledger_witness:
  "check_slug_changed (entities two_posts) (mk_entity (Some 2) ''Hello World'' ''other'')
     (mixin_generate_unique_slug django_slugify (entities two_posts)
        (mk_entity (Some 2) ''Hello World'' ''other''))
   \<and> save ''post'' django_slugify two_posts (mk_entity (Some 2) ''Hello World'' ''other'')
       = (Inl (IntegrityError ''title''), two_posts)
   \<and> slug_swaps (snd (save ''post'' django_slugify two_posts
        (mk_entity (Some 2) ''Hello World'' ''other''))) = slug_swaps two_posts"
proof -
  have h: "save_base (entities two_posts)
      ((mk_entity (Some 2) ''Hello World'' ''other'')
         \<lparr>slug := mixin_generate_unique_slug django_slugify (entities two_posts)
                    (mk_entity (Some 2) ''Hello World'' ''other'')\<rparr>)
      = Inl (IntegrityError ''title'')"
    by code_simp
  have c: "check_slug_changed (entities two_posts) (mk_entity (Some 2) ''Hello World'' ''other'')
     (mixin_generate_unique_slug django_slugify (entities two_posts)
        (mk_entity (Some 2) ''Hello World'' ''other''))"
    by code_simp
  note t = failed_write_leaves_ledger[where w = save_base
      and st = two_posts and self = "mk_entity (Some 2) ''Hello World'' ''other''"
      and sl = django_slugify and ct = "''post''" and err = "IntegrityError ''title''"]
  from t h c show ?thesis
    by (simp add: save_def)
qed


lemma save_with_unchanged:
  "\<not> check_slug_changed (entities st) self (mixin_generate_unique_slug sl (entities st) self)
   \<Longrightarrow> slug_swaps (snd (save_with w ct sl st self)) = slug_swaps st"
  by (simp add: save_with_def Let_def split: sum.splits prod.splits)

text \<open>
  Claim C6. A save whose resolved slug equals the slug stored for the instance's key
  (whatever happened to the title), and a save of an instance that has no key or whose key
  has no row, leaves the ledger as it was.
\<close>

theorem unchanged_slug_or_insert_leaves_ledger:
  assumes "pk self = None
           \<or> find (\<lambda>r. pk r = pk self) (entities st) = None
           \<or> (\<exists>old. find (\<lambda>r. pk r = pk self) (entities st) = Some old
                  \<and> slug old = mixin_generate_unique_slug sl (entities st) self)"
  shows "slug_swaps (snd (save ct sl st self)) = slug_swaps st"
proof -
  from assms
  have "\<not> check_slug_changed (entities st) self (mixin_generate_unique_slug sl (entities st) self)"
    by (auto simp: check_slug_changed_def pk_truthy_def)
  then show ?thesis
    unfolding save_def by (rule save_with_unchanged)
qed

theorem unchanged_slug_or_insert_leaves_ledger_witness:
  "title (mk_entity (Some 1) ''Hello World!'' ''hello-world'') \<noteq> ''Hello World''
   \<and> find (\<lambda>r. pk r = Some 1) (entities hello_store)
       = Some (mk_entity (Some 1) ''Hello World'' ''hello-world'')
   \<and> mixin_generate_unique_slug django_slugify (entities hello_store)
        (mk_entity (Some 1) ''Hello World!'' ''hello-world'') = ''hello-world''
   \<and> slug_swaps (snd (save ''post'' django_slugify hello_store
        (mk_entity (Some 1) ''Hello World!'' ''hello-world''))) = slug_swaps hello_store
   \<and> map_sum id slug (fst (save ''post'' django_slugify hello_store
        (mk_entity (Some 1) ''Hello World!'' ''hello-world''))) = Inr ''hello-world''
   \<and> pk (mk_entity None ''Second Post'' []) = None
   \<and> slug_swaps (snd (save ''post'' django_slugify hello_store
        (mk_entity None ''Second Post'' []))) = slug_swaps hello_store
   \<and> map_sum id slug (fst (save ''post'' django_slugify hello_store
        (mk_entity None ''Second Post'' []))) = Inr ''second-post''"
proof -
  have f: "find (\<lambda>r. pk r = pk (mk_entity (Some 1) ''Hello World!'' ''hello-world''))
             (entities hello_store)
           = Some (mk_entity (Some 1) ''Hello World'' ''hello-world'')"
    by code_simp
  have g: "slug (mk_entity (Some 1) ''Hello World'' ''hello-world'')
           = mixin_generate_unique_slug django_slugify (entities hello_store)
               (mk_entity (Some 1) ''Hello World!'' ''hello-world'')"
    by code_simp
  have n: "pk (mk_entity None ''Second Post'' []) = None"
    by (simp add: mk_entity_def)
  have r1: "map_sum id slug (fst (save ''post'' django_slugify hello_store
        (mk_entity (Some 1) ''Hello World!'' ''hello-world''))) = Inr ''hello-world''"
    by code_simp
  have r2: "map_sum id slug (fst (save ''post'' django_slugify hello_store
        (mk_entity None ''Second Post'' []))) = Inr ''second-post''"
    by code_simp
  have t: "title (mk_entity (Some 1) ''Hello World!'' ''hello-world'') \<noteq> ''Hello World''"
    by (simp add: mk_entity_def)
  note a = unchanged_slug_or_insert_leaves_ledger[where self = "mk_entity (Some 1) ''Hello World!'' ''hello-world''"
      and st = hello_store and sl = django_slugify and ct = "''post''"]
  note b = unchanged_slug_or_insert_leaves_ledger[where self = "mk_entity None ''Second Post'' []"
      and st = hello_store and sl = django_slugify and ct = "''post''"]
  from f g have a': "slug_swaps (snd (save ''post'' django_slugify hello_store
        (mk_entity (Some 1) ''Hello World!'' ''hello-world''))) = slug_swaps hello_store"
    by (intro a) blast
  from n have b': "slug_swaps (snd (save ''post'' django_slugify hello_store
        (mk_entity None ''Second Post'' []))) = slug_swaps hello_store"
    by (intro b) blast
  from f g have g': "mixin_generate_unique_slug django_slugify (entities hello_store)
        (mk_entity (Some 1) ''Hello World!'' ''hello-world'') = ''hello-world''"
    by (simp add: mk_entity_def)
  from f have f': "find (\<lambda>r. pk r = Some 1) (entities hello_store)
       = Some (mk_entity (Some 1) ''Hello World'' ''hello-world'')"
    by (simp add: mk_entity_def)
  from t f' g' a' r1 n b' r2 show ?thesis by blast
qed


lemma generate_unique_slug_nonempty: "s \<noteq> [] \<Longrightarrow> generate_unique_slug fld rows inst s \<noteq> []"
proof (cases "is_slug_exists fld rows s inst")
  case False
  assume "s \<noteq> []"
  with False show ?thesis by (simp add: generate_unique_slug_def loop_free)
next
  case True
  assume "s \<noteq> []"
  with loop_first_free[OF True, of 1 s] show ?thesis
    by (auto simp: generate_unique_slug_def)
qed

lemma mixin_generate_unique_slug_nonempty:
  "sl (title self) \<noteq> [] \<Longrightarrow> mixin_generate_unique_slug sl rows self \<noteq> []"
proof (cases "slug_taken rows self (sl (title self))")
  case False
  assume "sl (title self) \<noteq> []"
  with False show ?thesis by (simp add: mixin_generate_unique_slug_loop mixin_loop_free)
next
  case True
  assume "sl (title self) \<noteq> []"
  with mixin_loop_first_free[OF True, of 1 "sl (title self)"] show ?thesis
    by (auto simp: mixin_generate_unique_slug_loop)
qed

lemma save_base_Inr:
  assumes "save_base rows i0 = Inr (rows', inst)"
  shows "inst = (case pk i0 of None \<Rightarrow> i0\<lparr>pk := Some (next_id rows)\<rparr> | Some _ \<Rightarrow> i0)"
    and "\<not> list_ex (\<lambda>r. pk r \<noteq> pk inst \<and> title r = title inst) rows"
    and "\<not> list_ex (\<lambda>r. pk r \<noteq> pk inst \<and> slug r = slug inst) rows"
    and "rows' = (if list_ex (\<lambda>r. pk r = pk inst) rows
                  then map (\<lambda>r. if pk r = pk inst then inst else r) rows
                  else rows @ [inst])"
proof -
  define inst0 where
    "inst0 = (case pk i0 of None \<Rightarrow> i0\<lparr>pk := Some (next_id rows)\<rparr> | Some _ \<Rightarrow> i0)"
  have u: "save_base rows i0 =
      (if list_ex (\<lambda>r. pk r \<noteq> pk inst0 \<and> title r = title inst0) rows
       then Inl (IntegrityError ''title'')
       else if list_ex (\<lambda>r. pk r \<noteq> pk inst0 \<and> slug r = slug inst0) rows
       then Inl (IntegrityError ''slug'')
       else if list_ex (\<lambda>r. pk r = pk inst0) rows
       then Inr (map (\<lambda>r. if pk r = pk inst0 then inst0 else r) rows, inst0)
       else Inr (rows @ [inst0], inst0))"
    unfolding save_base_def Let_def inst0_def by (rule refl)
  from assms have i: "inst = inst0"
    unfolding u by (simp split: if_splits)
  show "inst = (case pk i0 of None \<Rightarrow> i0\<lparr>pk := Some (next_id rows)\<rparr> | Some _ \<Rightarrow> i0)"
    unfolding i inst0_def by (rule refl)
  from assms show "\<not> list_ex (\<lambda>r. pk r \<noteq> pk inst \<and> title r = title inst) rows"
    unfolding u i by (simp split: if_splits)
  from assms show "\<not> list_ex (\<lambda>r. pk r \<noteq> pk inst \<and> slug r = slug inst) rows"
    unfolding u i by (simp split: if_splits)
  from assms show "rows' = (if list_ex (\<lambda>r. pk r = pk inst) rows
                  then map (\<lambda>r. if pk r = pk inst then inst else r) rows
                  else rows @ [inst])"
    unfolding u i by (simp split: if_splits)
qed

lemma save_base_slug:
  assumes "save_base rows i0 = Inr (rows', inst)"
  shows "slug inst = slug i0"
  using save_base_Inr(1)[OF assms] by (simp split: option.splits)

lemma save_base_title:
  assumes "save_base rows i0 = Inr (rows', inst)"
  shows "title inst = title i0"
  using save_base_Inr(1)[OF assms] by (simp split: option.splits)

lemma save_base_pk:
  assumes "save_base rows i0 = Inr (rows', inst)"
  shows "pk inst = (case pk i0 of None \<Rightarrow> Some (next_id rows) | Some i \<Rightarrow> Some i)"
  using save_base_Inr(1)[OF assms] by (simp split: option.splits)

lemma find_replaced:
  "list_ex (\<lambda>r. pk r = p) rows \<Longrightarrow> pk inst = p \<Longrightarrow>
   find (\<lambda>r. pk r = p) (map (\<lambda>r. if pk r = p then inst else r) rows) = Some inst"
  by (induction rows) auto

lemma find_appended:
  "\<not> list_ex (\<lambda>r. pk r = p) rows \<Longrightarrow> pk inst = p \<Longrightarrow>
   find (\<lambda>r. pk r = p) (rows @ [inst]) = Some inst"
  by (induction rows) auto

lemma save_base_find:
  assumes "save_base rows i0 = Inr (rows', inst)"
  shows "find (\<lambda>r. pk r = pk inst) rows' = Some inst"
  using save_base_Inr(4)[OF assms] by (simp add: find_replaced find_appended)

lemma save_Inr:
  assumes "save ct sl st self = (Inr self', st')"
  shows "\<exists>rows'. save_base (entities st)
                   (self\<lparr>slug := mixin_generate_unique_slug sl (entities st) self\<rparr>) = Inr (rows', self')
               \<and> entities st' = rows'"
  using assms
  by (auto simp: save_def save_with_def Let_def split: sum.splits prod.splits if_splits)

text \<open>
  Claim C9, as amended. The claim (a non-empty title gives a non-empty slug after a
  successful save) fails for a title the slugifier maps to the empty string: when no other
  row has the empty slug, the mixin saves the empty slug. What holds: when the slugifier's result for the title is not empty,
  the instance a successful save returns has a non-empty slug, and it is the row stored
  under its key.
\<close>

theorem sluggable_title_gives_nonempty_slug:
  assumes "sl (title self) \<noteq> []" and "save ct sl st self = (Inr self', st')"
  shows "slug self' \<noteq> [] \<and> find (\<lambda>r. pk r = pk self') (entities st') = Some self'"
proof -
  from save_Inr[OF assms(2)] obtain rows' where
    w: "save_base (entities st)
          (self\<lparr>slug := mixin_generate_unique_slug sl (entities st) self\<rparr>) = Inr (rows', self')"
    and r: "entities st' = rows'"
    by blast
  have "mixin_generate_unique_slug sl (entities st) self \<noteq> []"
    using assms(1) by (rule mixin_generate_unique_slug_nonempty)
  with save_base_slug[OF w] have "slug self' \<noteq> []" by simp
  moreover from save_base_find[OF w] r
  have "find (\<lambda>r. pk r = pk self') (entities st') = Some self'" by simp
  ultimately show ?thesis by simp
qed

theorem sluggable_title_gives_nonempty_slug_witness:
  "django_slugify (title (mk_entity None ''Hello World'' [])) \<noteq> []
   \<and> save ''post'' django_slugify empty_store (mk_entity None ''Hello World'' [])
       = (Inr (mk_entity (Some 1) ''Hello World'' ''hello-world''),
          \<lparr>entities = [mk_entity (Some 1) ''Hello World'' ''hello-world''], slug_swaps = []\<rparr>)
   \<and> slug (mk_entity (Some 1) ''Hello World'' ''hello-world'') \<noteq> []
   \<and> find (\<lambda>r. pk r = pk (mk_entity (Some 1) ''Hello World'' ''hello-world''))
        (entities \<lparr>entities = [mk_entity (Some 1) ''Hello World'' ''hello-world''], slug_swaps = []\<rparr>)
       = Some (mk_entity (Some 1) ''Hello World'' ''hello-world'')"
proof -
  have h1: "django_slugify (title (mk_entity None ''Hello World'' [])) \<noteq> []"
    by code_simp
  have h2: "save ''post'' django_slugify empty_store (mk_entity None ''Hello World'' [])
       = (Inr (mk_entity (Some 1) ''Hello World'' ''hello-world''),
          \<lparr>entities = [mk_entity (Some 1) ''Hello World'' ''hello-world''], slug_swaps = []\<rparr>)"
    by code_simp
  from sluggable_title_gives_nonempty_slug[OF h1 h2] h1 h2 show ?thesis by blast
qed

text \<open>
  The counterexample to claim C9 as stated: the title \<open>!!!\<close> is not empty, its slug is, and
  the save succeeds with the empty slug in the instance and in the table.
\<close>

theorem punctuation_title_saves_empty_slug:
  "title (mk_entity None ''!!!'' []) \<noteq> []
   \<and> save ''post'' django_slugify empty_store (mk_entity None ''!!!'' [])
       = (Inr (mk_entity (Some 1) ''!!!'' []),
          \<lparr>entities = [mk_entity (Some 1) ''!!!'' []], slug_swaps = []\<rparr>)
   \<and> slug (mk_entity (Some 1) ''!!!'' []) = []"
  by code_simp


lemma update_or_create_keys:
  assumes "distinct (map old_slug sw)" and "update_or_create sw k ns ct oid = Inr sw'"
  shows "distinct (map old_slug sw')"
proof (cases "filter (\<lambda>r. old_slug r = k) sw")
  case Nil
  then have "k \<notin> set (map old_slug sw)"
    by (auto simp: filter_empty_conv)
  with assms Nil show ?thesis
    by (auto simp: update_or_create_def)
next
  case (Cons x xs)
  with assms(2) have "sw' = map (\<lambda>r. if old_slug r = k
                               then r\<lparr>new_slug := ns, content_type := ct, object_id := oid\<rparr>
                               else r) sw"
    by (cases xs) (auto simp: update_or_create_def)
  then have "map old_slug sw' = map old_slug sw"
    by (simp add: comp_def if_distrib cong: if_cong)
  with assms(1) show ?thesis by simp
qed

lemma update_or_create_existing:
  assumes "distinct (map old_slug sw)" and "k \<in> old_slug ` set sw"
  shows "update_or_create sw k ns ct oid
           = Inr (map (\<lambda>r. if old_slug r = k
                            then r\<lparr>new_slug := ns, content_type := ct, object_id := oid\<rparr>
                            else r) sw)"
proof -
  from assms(1) have "length (filter (\<lambda>r. old_slug r = k) sw) \<le> 1"
  proof (induction sw)
    case Nil
    then show ?case by simp
  next
    case (Cons a sw)
    show ?case
    proof (cases "old_slug a = k")
      case True
      with Cons.prems have "filter (\<lambda>r. old_slug r = k) sw = []"
        by (auto simp: filter_empty_conv image_iff)
      with True show ?thesis by simp
    next
      case False
      with Cons show ?thesis by simp
    qed
  qed
  moreover from assms(2) have "filter (\<lambda>r. old_slug r = k) sw \<noteq> []"
    by (auto simp: filter_empty_conv)
  ultimately obtain x where "filter (\<lambda>r. old_slug r = k) sw = [x]"
    by (cases "filter (\<lambda>r. old_slug r = k) sw") (auto simp: Suc_le_eq)
  then show ?thesis by (simp add: update_or_create_def)
qed

lemma handle_slug_swap_logic_keys:
  assumes "distinct (map old_slug sw)" and "handle_slug_swap_logic ct sw self old new = Inr sw'"
  shows "distinct (map old_slug sw')"
  using assms update_or_create_keys
  by (auto simp: handle_slug_swap_logic_def split: option.splits if_splits)

lemma save_with_keys:
  assumes "distinct (map old_slug (slug_swaps st))"
  shows "distinct (map old_slug (slug_swaps (snd (save_with w ct sl st self))))"
proof (cases "w (entities st) (self\<lparr>slug := mixin_generate_unique_slug sl (entities st) self\<rparr>)")
  case (Inl err)
  with assms show ?thesis by (simp add: save_with_def Let_def)
next
  case (Inr res)
  obtain rows' self' where res: "res = (rows', self')" by (cases res)
  show ?thesis
  proof (cases "check_slug_changed (entities st) self (mixin_generate_unique_slug sl (entities st) self)")
    case False
    with assms show ?thesis by (simp add: save_with_unchanged)
  next
    case True
    show ?thesis
    proof (cases "handle_slug_swap_logic ct (slug_swaps st) self' (slug self)
                    (mixin_generate_unique_slug sl (entities st) self)")
      case (Inl err)
      with Inr res True assms show ?thesis by (simp add: save_with_def Let_def)
    next
      case (Inr sw')
      from handle_slug_swap_logic_keys[OF assms Inr] have "distinct (map old_slug sw')" .
      with Inr \<open>w (entities st) (self\<lparr>slug := mixin_generate_unique_slug sl (entities st) self\<rparr>) = Inr res\<close>
        res True show ?thesis by (simp add: save_with_def Let_def)
    qed
  qed
qed

lemma saves_keys:
  "distinct (map old_slug (slug_swaps st)) \<Longrightarrow> distinct (map old_slug (slug_swaps (saves ct sl st es)))"
proof (induction es arbitrary: st)
  case Nil
  then show ?case by simp
next
  case (Cons e es)
  from Cons.prems have "distinct (map old_slug (slug_swaps (snd (save ct sl st e))))"
    unfolding save_def by (rule save_with_keys)
  then show ?case by (simp add: Cons.IH)
qed

lemma check_slug_changed_pk:
  "check_slug_changed rows self s \<Longrightarrow> \<exists>i. pk self = Some i \<and> i \<noteq> 0"
  by (auto simp: check_slug_changed_def pk_truthy_def split: if_splits option.splits)

text \<open>
  The row a successful save of a changed slug leaves in the ledger: its key is the slug the
  instance carried in memory when \<open>save\<close> was called.
\<close>

lemma update_or_create_row:
  assumes "update_or_create sw k ns ct oid = Inr sw'"
  shows "\<exists>r\<in>set sw'. old_slug r = k \<and> new_slug r = ns \<and> content_type r = ct \<and> object_id r = oid"
proof (cases "filter (\<lambda>r. old_slug r = k) sw")
  case Nil
  with assms show ?thesis by (auto simp: update_or_create_def)
next
  case (Cons x xs)
  then have "x \<in> set (filter (\<lambda>r. old_slug r = k) sw)" by simp
  then have x: "x \<in> set sw" "old_slug x = k" by simp_all
  from Cons assms have "sw' = map (\<lambda>r. if old_slug r = k
                               then r\<lparr>new_slug := ns, content_type := ct, object_id := oid\<rparr>
                               else r) sw"
    by (cases xs) (auto simp: update_or_create_def)
  with x have "x\<lparr>new_slug := ns, content_type := ct, object_id := oid\<rparr> \<in> set sw'"
    by force
  with x(2) show ?thesis
    by (intro bexI[of _ "x\<lparr>new_slug := ns, content_type := ct, object_id := oid\<rparr>"]) simp_all
qed

lemma changed_slug_upserts_row:
  assumes "save ct sl st self = (Inr self', st')"
    and "check_slug_changed (entities st) self (mixin_generate_unique_slug sl (entities st) self)"
  shows "\<exists>i. pk self = Some i
           \<and> (\<exists>r\<in>set (slug_swaps st'). old_slug r = slug self
                  \<and> new_slug r = mixin_generate_unique_slug sl (entities st) self
                  \<and> content_type r = ct \<and> object_id r = i)"
proof -
  let ?ns = "mixin_generate_unique_slug sl (entities st) self"
  from save_Inr[OF assms(1)] obtain rows' where
    w: "save_base (entities st) (self\<lparr>slug := ?ns\<rparr>) = Inr (rows', self')"
    by blast
  from check_slug_changed_pk[OF assms(2)] obtain i where i: "pk self = Some i" "i \<noteq> 0" by blast
  from save_base_pk[OF w] i have p: "pk self' = Some i" by simp
  from assms w p i have u: "update_or_create (slug_swaps st) (slug self) ?ns ct i = Inr (slug_swaps st')"
    by (auto simp: save_def save_with_def Let_def handle_slug_swap_logic_def split: sum.splits)
  from update_or_create_row[OF u] i(1) show ?thesis by blast
qed

text \<open>
  Claim C3. The claim: the ledger row of a changed slug is keyed on the slug previously
  stored for the instance's key. \<open>save\<close> passes \<open>self.slug\<close> as it was in memory when the
  call began, while the change itself is detected against the stored row. For an instance
  read when the stored slug was \<open>first-title\<close> and saved after the row had moved on to
  \<open>second-title\<close>, the row written is keyed on \<open>first-title\<close>, and \<open>second-title\<close>, the
  slug that was stored, gets no row.
\<close>

theorem stale_instance_keys_ledger_on_its_own_slug:
  "find (\<lambda>r. pk r = Some 1) (entities retitled_store)
     = Some (mk_entity (Some 1) ''Second Title'' ''second-title'')
   \<and> save ''post'' django_slugify retitled_store (mk_entity (Some 1) ''Third Title'' ''first-title'')
     = (Inr (mk_entity (Some 1) ''Third Title'' ''third-title''),
        \<lparr>entities = [mk_entity (Some 1) ''Third Title'' ''third-title''],
         slug_swaps = [post_swap ''first-title'' ''third-title'' Primary]\<rparr>)"
  by code_simp

text \<open>
  Claim C4. A ledger with at most one row for each \<open>old_slug\<close> stays so under every
  sequence of saves (the empty ledger is such a ledger), whatever each save does and
  whether it succeeds. When a successful save of a changed slug finds its key already in the
  ledger, the keys of the ledger are the same list as before, and the row of that key
  carries the newly resolved slug.
\<close>

theorem one_ledger_row_per_old_slug:
  assumes "distinct (map old_slug (slug_swaps st))"
  shows "distinct (map old_slug (slug_swaps (saves ct sl st es)))
         \<and> (save ct sl st self = (Inr self', st')
              \<and> check_slug_changed (entities st) self (mixin_generate_unique_slug sl (entities st) self)
              \<and> slug self \<in> old_slug ` set (slug_swaps st)
            \<longrightarrow> map old_slug (slug_swaps st') = map old_slug (slug_swaps st)
                \<and> (\<forall>r\<in>set (slug_swaps st'). old_slug r = slug self
                      \<longrightarrow> new_slug r = mixin_generate_unique_slug sl (entities st) self))"
proof (intro conjI impI)
  from assms show "distinct (map old_slug (slug_swaps (saves ct sl st es)))"
    by (rule saves_keys)
next
  assume a: "save ct sl st self = (Inr self', st')
              \<and> check_slug_changed (entities st) self (mixin_generate_unique_slug sl (entities st) self)
              \<and> slug self \<in> old_slug ` set (slug_swaps st)"
  let ?ns = "mixin_generate_unique_slug sl (entities st) self"
  from a have sv: "save ct sl st self = (Inr self', st')" and ch: "check_slug_changed (entities st) self ?ns"
    and k: "slug self \<in> old_slug ` set (slug_swaps st)" by simp_all
  from save_Inr[OF sv] obtain rows' where
    w: "save_base (entities st) (self\<lparr>slug := ?ns\<rparr>) = Inr (rows', self')"
    by blast
  from check_slug_changed_pk[OF ch] obtain i where i: "pk self = Some i" "i \<noteq> 0" by blast
  from save_base_pk[OF w] i have p: "pk self' = Some i" by simp
  let ?f = "\<lambda>r. if old_slug r = slug self
                 then r\<lparr>new_slug := ?ns, content_type := ct, object_id := i\<rparr> else r"
  from update_or_create_existing[OF assms k] p i
  have h: "handle_slug_swap_logic ct (slug_swaps st) self' (slug self) ?ns = Inr (map ?f (slug_swaps st))"
    by (simp add: handle_slug_swap_logic_def)
  from sv w ch h have s': "slug_swaps st' = map ?f (slug_swaps st)"
    by (auto simp: save_def save_with_def Let_def)
  show "map old_slug (slug_swaps st') = map old_slug (slug_swaps st)"
    unfolding s' by (simp add: comp_def if_distrib cong: if_cong)
  show "\<forall>r\<in>set (slug_swaps st'). old_slug r = slug self \<longrightarrow> new_slug r = ?ns"
    unfolding s' by auto
qed


theorem one_ledger_row_per_old_slug_witness:
  "distinct (map old_slug (slug_swaps empty_store))
   \<and> saves ''post'' django_slugify empty_store cycle_saves = cycled_store
   \<and> distinct (map old_slug (slug_swaps (saves ''post'' django_slugify empty_store cycle_saves)))
   \<and> distinct (map old_slug (slug_swaps cycled_store))
   \<and> save ''post'' django_slugify cycled_store (mk_entity (Some 1) ''C'' ''a'')
       = (Inr (mk_entity (Some 1) ''C'' ''c''),
          \<lparr>entities = [mk_entity (Some 1) ''C'' ''c''],
           slug_swaps = [post_swap ''a'' ''c'' Primary, post_swap ''b'' ''a'' Primary]\<rparr>)
   \<and> check_slug_changed (entities cycled_store) (mk_entity (Some 1) ''C'' ''a'')
        (mixin_generate_unique_slug django_slugify (entities cycled_store)
           (mk_entity (Some 1) ''C'' ''a''))
   \<and> slug (mk_entity (Some 1) ''C'' ''a'') \<in> old_slug ` set (slug_swaps cycled_store)
   \<and> map old_slug (slug_swaps
          \<lparr>entities = [mk_entity (Some 1) ''C'' ''c''],
           slug_swaps = [post_swap ''a'' ''c'' Primary, post_swap ''b'' ''a'' Primary]\<rparr>)
       = map old_slug (slug_swaps cycled_store)"
proof -
  have d0: "distinct (map old_slug (slug_swaps empty_store))"
    by (simp add: empty_store_def)
  have r: "saves ''post'' django_slugify empty_store cycle_saves = cycled_store"
    by code_simp
  have d3: "distinct (map old_slug (slug_swaps cycled_store))"
    by code_simp
  have sv: "save ''post'' django_slugify cycled_store (mk_entity (Some 1) ''C'' ''a'')
       = (Inr (mk_entity (Some 1) ''C'' ''c''),
          \<lparr>entities = [mk_entity (Some 1) ''C'' ''c''],
           slug_swaps = [post_swap ''a'' ''c'' Primary, post_swap ''b'' ''a'' Primary]\<rparr>)"
    by code_simp
  have ch: "check_slug_changed (entities cycled_store) (mk_entity (Some 1) ''C'' ''a'')
        (mixin_generate_unique_slug django_slugify (entities cycled_store)
           (mk_entity (Some 1) ''C'' ''a''))"
    by code_simp
  have k: "slug (mk_entity (Some 1) ''C'' ''a'') \<in> old_slug ` set (slug_swaps cycled_store)"
    by (simp add: mk_entity_def cycled_store_def post_swap_def)
  note a = one_ledger_row_per_old_slug[OF d0, where ct = "''post''" and sl = django_slugify
      and es = cycle_saves]
  note b = one_ledger_row_per_old_slug[OF d3, where ct = "''post''" and sl = django_slugify
      and self = "mk_entity (Some 1) ''C'' ''a''" and self' = "mk_entity (Some 1) ''C'' ''c''"
      and st' = "\<lparr>entities = [mk_entity (Some 1) ''C'' ''c''],
           slug_swaps = [post_swap ''a'' ''c'' Primary, post_swap ''b'' ''a'' Primary]\<rparr>"]
  from a have c1: "distinct (map old_slug (slug_swaps (saves ''post'' django_slugify empty_store cycle_saves)))"
    by blast
  from b sv ch k have c2: "map old_slug (slug_swaps
          \<lparr>entities = [mk_entity (Some 1) ''C'' ''c''],
           slug_swaps = [post_swap ''a'' ''c'' Primary, post_swap ''b'' ''a'' Primary]\<rparr>)
       = map old_slug (slug_swaps cycled_store)"
    by blast
  from d0 r c1 d3 sv ch k c2 show ?thesis by blast
qed

lemma mixin_slug_free: "\<not> slug_taken rows self (mixin_generate_unique_slug sl rows self)"
proof (cases "slug_taken rows self (sl (title self))")
  case False
  then show ?thesis by (simp add: mixin_generate_unique_slug_loop mixin_loop_free)
next
  case True
  from mixin_loop_first_free[OF True, of 1 "sl (title self)"] show ?thesis
    by (auto simp: mixin_generate_unique_slug_loop)
qed

lemma slug_taken_slug_update: "slug_taken rows (self\<lparr>slug := x\<rparr>) s = slug_taken rows self s"
  by (simp add: slug_taken_def)

lemma next_id_fresh: "r \<in> set rows \<Longrightarrow> pk r \<noteq> Some (next_id rows)"
proof
  assume r: "r \<in> set rows" and p: "pk r = Some (next_id rows)"
  let ?ids = "map (\<lambda>r. case pk r of None \<Rightarrow> 0 | Some i \<Rightarrow> i) rows"
  from r p have "next_id rows \<in> set ?ids" by force
  then have "next_id rows \<le> Max (set (0 # ?ids))" by simp
  also have "\<dots> = fold max ?ids 0" by (rule Max.set_eq_fold)
  finally show False by (simp add: next_id_def)
qed

lemma filter_replaced:
  "pk inst = p \<Longrightarrow>
   filter (\<lambda>r. pk r \<noteq> p) (map (\<lambda>r. if pk r = p then inst else r) rows) = filter (\<lambda>r. pk r \<noteq> p) rows"
  by (induction rows) auto

lemma save_base_others:
  assumes "save_base rows i0 = Inr (rows', inst)"
  shows "filter (\<lambda>r. pk r \<noteq> pk inst) rows' = filter (\<lambda>r. pk r \<noteq> pk inst) rows"
  using save_base_Inr(4)[OF assms] by (simp add: filter_replaced)

lemma save_base_exclude:
  assumes "save_base rows i0 = Inr (rows', inst)"
  shows "exclude_pk (pk inst) rows' = exclude_pk (pk i0) rows"
proof (cases "pk i0")
  case None
  with save_base_pk[OF assms] have p: "pk inst = Some (next_id rows)" by simp
  have "filter (\<lambda>r. pk r \<noteq> Some (next_id rows)) rows = rows"
    by (simp add: filter_id_conv next_id_fresh)
  with save_base_others[OF assms] p None show ?thesis
    by (simp add: exclude_pk_def)
next
  case (Some i)
  with save_base_pk[OF assms] have p: "pk inst = Some i" by simp
  with save_base_others[OF assms] Some show ?thesis
    by (simp add: exclude_pk_def)
qed

lemma save_base_own_rows:
  assumes "save_base rows i0 = Inr (rows', inst)" and "r \<in> set rows'" and "pk r = pk inst"
  shows "r = inst"
  using save_base_Inr(4)[OF assms(1)] assms(2,3)
  by (auto simp: list_ex_iff split: if_splits)

lemma mixin_unique_loop_cong:
  "(\<And>x. slug_taken rows' e' x = slug_taken rows e x) \<Longrightarrow>
   mixin_unique_loop rows' e' b s i = mixin_unique_loop rows e b s i"
proof (induction rows e b s i rule: mixin_unique_loop.induct)
  case (1 rows self b s i)
  show ?case
  proof (cases "slug_taken rows self s")
    case True
    with "1.prems" have t': "slug_taken rows' e' s" by simp
    from "1.IH"[OF True "1.prems"]
    have "mixin_unique_loop rows' e' b (b @ ''-'' @ str_nat i) (i + 1)
        = mixin_unique_loop rows self b (b @ ''-'' @ str_nat i) (i + 1)" .
    with True t' show ?thesis
      by (subst mixin_unique_loop.simps, subst (2) mixin_unique_loop.simps) simp
  next
    case False
    with "1.prems" have "\<not> slug_taken rows' e' s" by simp
    with False show ?thesis by (simp add: mixin_loop_free)
  qed
qed

text \<open>
  Claim C7. After a successful save, saving the returned instance again changes nothing:
  the resolver returns the slug the instance already has (the instance's own row is
  excluded from the probe, so no counter is appended), the call returns the same instance,
  and the store it leaves, the ledger included, is the store it found. This holds for
  every key, the key \<open>0\<close> included.
\<close>

theorem resave_is_idempotent:
  assumes "save ct sl st self = (Inr self1, st1)"
  shows "mixin_generate_unique_slug sl (entities st1) self1 = slug self1
         \<and> save ct sl st1 self1 = (Inr self1, st1)"
proof -
  let ?rows = "entities st"
  let ?s = "mixin_generate_unique_slug sl ?rows self"
  from save_Inr[OF assms] obtain rows' where
    w: "save_base ?rows (self\<lparr>slug := ?s\<rparr>) = Inr (rows', self1)"
    and r: "entities st1 = rows'"
    by blast
  from save_base_slug[OF w] have s1: "slug self1 = ?s" by simp
  from save_base_title[OF w] have t1: "title self1 = title self" by simp
  from save_base_pk[OF w] obtain j where j: "pk self1 = Some j"
    by (auto split: option.splits)
  from save_base_exclude[OF w] have ex: "exclude_pk (pk self1) rows' = exclude_pk (pk self) ?rows"
    by simp
  then have taken: "\<And>x. slug_taken rows' self1 x = slug_taken ?rows self x"
    by (simp add: slug_taken_def)
  have m: "mixin_generate_unique_slug sl rows' self1 = ?s"
    unfolding mixin_generate_unique_slug_loop t1
    by (rule mixin_unique_loop_cong) (rule taken)
  have upd: "self1\<lparr>slug := ?s\<rparr> = self1"
    using s1 by simp
  have others: "filter (\<lambda>r. pk r \<noteq> pk self1) rows' = filter (\<lambda>r. pk r \<noteq> pk self1) ?rows"
    using w by (rule save_base_others)
  have c1: "\<not> list_ex (\<lambda>r. pk r \<noteq> pk self1 \<and> title r = title self1) rows'"
  proof -
    have "list_ex (\<lambda>r. pk r \<noteq> pk self1 \<and> title r = title self1) rows'
          = list_ex (\<lambda>r. title r = title self1) (filter (\<lambda>r. pk r \<noteq> pk self1) rows')"
      by (auto simp: list_ex_iff)
    also have "\<dots> = list_ex (\<lambda>r. pk r \<noteq> pk self1 \<and> title r = title self1) ?rows"
      unfolding others by (auto simp: list_ex_iff)
    finally show ?thesis using save_base_Inr(2)[OF w] by simp
  qed
  have c2: "\<not> list_ex (\<lambda>r. pk r \<noteq> pk self1 \<and> slug r = slug self1) rows'"
  proof -
    have "list_ex (\<lambda>r. pk r \<noteq> pk self1 \<and> slug r = slug self1) rows'
          = list_ex (\<lambda>r. slug r = slug self1) (filter (\<lambda>r. pk r \<noteq> pk self1) rows')"
      by (auto simp: list_ex_iff)
    also have "\<dots> = list_ex (\<lambda>r. pk r \<noteq> pk self1 \<and> slug r = slug self1) ?rows"
      unfolding others by (auto simp: list_ex_iff)
    finally show ?thesis using save_base_Inr(3)[OF w] by simp
  qed
  from save_base_find[OF w] have f: "find (\<lambda>r. pk r = pk self1) rows' = Some self1" .
  then have c3: "list_ex (\<lambda>r. pk r = pk self1) rows'"
    by (auto simp: list_ex_iff find_Some_iff)
  have idm: "map (\<lambda>r. if pk r = pk self1 then self1 else r) rows' = rows'"
    using save_base_own_rows[OF w] by (intro map_idI) auto
  have keep: "(case pk self1 of None \<Rightarrow> self1\<lparr>pk := Some (next_id rows')\<rparr> | Some _ \<Rightarrow> self1) = self1"
    using j by simp
  have w1: "save_base rows' self1 = Inr (rows', self1)"
    unfolding save_base_def Let_def keep using c1 c2 c3 idm by simp
  have nc: "\<not> check_slug_changed rows' self1 ?s"
    using f s1 by (auto simp: check_slug_changed_def)
  have "save ct sl st1 self1 = (Inr self1, st1)"
    using w1 nc by (simp add: save_def save_with_def Let_def r m upd)
  with m r s1 show ?thesis by simp
qed

theorem resave_is_idempotent_witness:
  "save ''post'' django_slugify hello_store (mk_entity None ''Hello, World'' [])
     = (Inr (mk_entity (Some 2) ''Hello, World'' ''hello-world-1''),
        \<lparr>entities = [mk_entity (Some 1) ''Hello World'' ''hello-world'',
                     mk_entity (Some 2) ''Hello, World'' ''hello-world-1''],
         slug_swaps = [post_swap ''hi-world'' ''hello-world'' Primary]\<rparr>)
   \<and> mixin_generate_unique_slug django_slugify
        (entities \<lparr>entities = [mk_entity (Some 1) ''Hello World'' ''hello-world'',
                     mk_entity (Some 2) ''Hello, World'' ''hello-world-1''],
         slug_swaps = [post_swap ''hi-world'' ''hello-world'' Primary]\<rparr>)
        (mk_entity (Some 2) ''Hello, World'' ''hello-world-1'')
       = slug (mk_entity (Some 2) ''Hello, World'' ''hello-world-1'')
   \<and> save ''post'' django_slugify
        \<lparr>entities = [mk_entity (Some 1) ''Hello World'' ''hello-world'',
                     mk_entity (Some 2) ''Hello, World'' ''hello-world-1''],
         slug_swaps = [post_swap ''hi-world'' ''hello-world'' Primary]\<rparr>
        (mk_entity (Some 2) ''Hello, World'' ''hello-world-1'')
     = (Inr (mk_entity (Some 2) ''Hello, World'' ''hello-world-1''),
        \<lparr>entities = [mk_entity (Some 1) ''Hello World'' ''hello-world'',
                     mk_entity (Some 2) ''Hello, World'' ''hello-world-1''],
         slug_swaps = [post_swap ''hi-world'' ''hello-world'' Primary]\<rparr>)
   \<and> save ''post'' django_slugify zero_store (mk_entity (Some 0) ''Zero'' ''zero'')
     = (Inr (mk_entity (Some 0) ''Zero'' ''zero''), zero_store)
   \<and> mixin_generate_unique_slug django_slugify (entities zero_store)
        (mk_entity (Some 0) ''Zero'' ''zero'') = slug (mk_entity (Some 0) ''Zero'' ''zero'')"
proof -
  have h1: "save ''post'' django_slugify hello_store (mk_entity None ''Hello, World'' [])
     = (Inr (mk_entity (Some 2) ''Hello, World'' ''hello-world-1''),
        \<lparr>entities = [mk_entity (Some 1) ''Hello World'' ''hello-world'',
                     mk_entity (Some 2) ''Hello, World'' ''hello-world-1''],
         slug_swaps = [post_swap ''hi-world'' ''hello-world'' Primary]\<rparr>)"
    by code_simp
  have h2: "save ''post'' django_slugify zero_store (mk_entity (Some 0) ''Zero'' ''zero'')
     = (Inr (mk_entity (Some 0) ''Zero'' ''zero''), zero_store)"
    by code_simp
  from resave_is_idempotent[OF h1] resave_is_idempotent[OF h2] h1 h2 show ?thesis by blast
qed

end
